theory Spec2Isabelle
  imports Main
begin

section \<open>Strings\<close>

text \<open>
  A JavaScript string is modelled as a \<open>string\<close>, one \<open>char\<close> per code unit, for
  the code units below 256 (ASCII and Latin-1). All markers, digits and keywords the
  notes parser looks for are ASCII. The functions of this section are the built-in
  string operations and the regular expressions that \<open>notes.js\<close> and \<open>qna.js\<close> use.
\<close>

definition isWhiteSpace :: "char \<Rightarrow> bool" where
  \<comment> \<open>the class \<open>\s\<close>, which is also what \<open>trim\<close> strips: TAB, LF, VT, FF, CR, SP, NBSP\<close>
  "isWhiteSpace c \<longleftrightarrow>
     c = CHR 0x09 \<or> c = CHR 0x0A \<or> c = CHR 0x0B \<or> c = CHR 0x0C \<or> c = CHR 0x0D \<or>
     c = CHR 0x20 \<or> c = CHR 0xA0"

definition isLineTerminator :: "char \<Rightarrow> bool" where
  \<comment> \<open>what \<open>.\<close> does not match: LF and CR\<close>
  "isLineTerminator c \<longleftrightarrow> c = CHR 0x0A \<or> c = CHR 0x0D"

definition isDigit :: "char \<Rightarrow> bool" where
  \<comment> \<open>the class \<open>\d\<close>\<close>
  "isDigit c \<longleftrightarrow> c \<in> set ''0123456789''"

definition trim :: "string \<Rightarrow> string" where
  "trim s = rev (dropWhile isWhiteSpace (rev (dropWhile isWhiteSpace s)))"

fun split_lines :: "string \<Rightarrow> string list" where
  \<comment> \<open>\<open>s.split('\n')\<close>: the empty string gives one empty line\<close>
  "split_lines [] = [[]]"
| "split_lines (c # cs) =
     (if c = CHR 0x0A then [] # split_lines cs
      else (case split_lines cs of
              [] \<Rightarrow> [[c]]
            | l # ls \<Rightarrow> (c # l) # ls))"

definition toLowerChar :: "char \<Rightarrow> char" where
  \<comment> \<open>lower case of one code unit below 256: A-Z, and the Latin-1 capitals but U+00D7\<close>
  "toLowerChar c =
     (let n = (of_char c :: nat)
      in if (65 \<le> n \<and> n \<le> 90) \<or> (192 \<le> n \<and> n \<le> 222 \<and> n \<noteq> 215)
         then char_of (n + 32) else c)"

definition toLowerCase :: "string \<Rightarrow> string" where
  "toLowerCase s = map toLowerChar s"

definition startsWith :: "string \<Rightarrow> string \<Rightarrow> bool" where
  "startsWith s p \<longleftrightarrow> take (length p) s = p"

fun includes_str :: "string \<Rightarrow> string \<Rightarrow> bool" where
  \<comment> \<open>\<open>s.includes(sub)\<close>\<close>
  "includes_str [] sub = (sub = [])"
| "includes_str (c # cs) sub = (startsWith (c # cs) sub \<or> includes_str cs sub)"

subsection \<open>The regular expressions of the line classifier\<close>

definition dotPlus :: "string \<Rightarrow> bool" where
  \<comment> \<open>\<open>.+\<close> at the head of \<open>s\<close>: one character that is no line terminator\<close>
  "dotPlus s = (case s of [] \<Rightarrow> False | c # _ \<Rightarrow> \<not> isLineTerminator c)"

fun wsPlusDotPlus :: "string \<Rightarrow> bool" where
  \<comment> \<open>\<open>\s+.+\<close> at the head of \<open>s\<close>, with the backtracking of \<open>\s+\<close>\<close>
  "wsPlusDotPlus [] = False"
| "wsPlusDotPlus (c # cs) = (isWhiteSpace c \<and> (dotPlus cs \<or> wsPlusDotPlus cs))"

definition matchMarker :: "string \<Rightarrow> string \<Rightarrow> bool" where
  \<comment> \<open>\<open>line.match(/^m\s+.+/)\<close> for a literal marker \<open>m\<close>\<close>
  "matchMarker m line \<longleftrightarrow> startsWith line m \<and> wsPlusDotPlus (drop (length m) line)"

definition replaceMarker :: "string \<Rightarrow> string \<Rightarrow> string" where
  \<comment> \<open>\<open>line.replace(/^m\s+/, '')\<close>: the marker and all white space after it; the line
      itself where the expression does not match\<close>
  "replaceMarker m line =
     (let r = drop (length m) line
      in if startsWith line m \<and> r \<noteq> [] \<and> isWhiteSpace (hd r)
         then dropWhile isWhiteSpace r else line)"

definition dotWs :: "string \<Rightarrow> bool" where
  \<comment> \<open>\<open>\.\s+.+\<close> at the head of \<open>s\<close>\<close>
  "dotWs s = (case s of [] \<Rightarrow> False | c # r \<Rightarrow> c = CHR ''.'' \<and> wsPlusDotPlus r)"

fun digitsDotWs :: "string \<Rightarrow> bool" where
  \<comment> \<open>\<open>\d+\.\s+.+\<close> at the head of \<open>s\<close>\<close>
  "digitsDotWs [] = False"
| "digitsDotWs (c # cs) = (isDigit c \<and> (dotWs cs \<or> digitsDotWs cs))"

definition matchNumbered :: "string \<Rightarrow> bool" where
  \<comment> \<open>\<open>line.match(/^\d+\.\s+.+/)\<close>\<close>
  "matchNumbered line = digitsDotWs line"

definition replaceNumbered :: "string \<Rightarrow> string" where
  \<comment> \<open>\<open>line.replace(/^\d+\.\s+/, '')\<close>\<close>
  "replaceNumbered line =
     (let r = dropWhile isDigit line
      in if line \<noteq> [] \<and> isDigit (hd line) \<and> startsWith r ''.'' \<and>
            tl r \<noteq> [] \<and> isWhiteSpace (hd (tl r))
         then dropWhile isWhiteSpace (tl r) else line)"

section \<open>The outline tree\<close>

text \<open>
  The objects \<open>notes.js\<close> builds. A field that some object literal of the source leaves
  out is optional: \<open>None\<close> is JavaScript's \<open>undefined\<close>.
\<close>

record note_subsection =
  sub_title :: string
  sub_points :: "string list option"

record note_section =
  title :: string
  content :: "string list option"
  points :: "string list option"
  subsections :: "note_subsection list option"

datatype js_error = TypeError

section \<open>parseStructuredNotes\<close>

text \<open>
  The local variables of \<open>parseStructuredNotes\<close>. \<open>currentSubsection\<close> is a reference to
  an object that sits in \<open>currentSection.subsections\<close>; it is modelled by the position
  of that object there. A push onto a missing array is the \<open>TypeError\<close> that JavaScript
  throws; a position outside the array gives the same error, and \<open>refs_ok\<close> below shows
  that neither happens.
\<close>

record parser_state =
  sections :: "note_section list"
  currentSection :: "note_section option"
  currentSubsection :: "nat option"
  inKeyPoints :: bool
  keyPoints :: "string list"

definition initial_state :: parser_state where
  "initial_state =
     \<lparr>sections = [], currentSection = None, currentSubsection = None,
      inKeyPoints = False, keyPoints = []\<rparr>"

definition pushContent :: "parser_state \<Rightarrow> string \<Rightarrow> js_error + parser_state" where
  \<comment> \<open>\<open>currentSection.content.push(x)\<close>, for an open section\<close>
  "pushContent st x =
     (case currentSection st of
        None \<Rightarrow> Inl TypeError
      | Some s \<Rightarrow>
          (case content s of
             None \<Rightarrow> Inl TypeError
           | Some c \<Rightarrow> Inr (st\<lparr>currentSection := Some (s\<lparr>content := Some (c @ [x])\<rparr>)\<rparr>)))"

definition pushPoint :: "parser_state \<Rightarrow> nat \<Rightarrow> string \<Rightarrow> js_error + parser_state" where
  \<comment> \<open>\<open>if (!currentSubsection.points) currentSubsection.points = [];
      currentSubsection.points.push(point)\<close> on the subsection at position \<open>i\<close>\<close>
  "pushPoint st i point =
     (case currentSection st of
        None \<Rightarrow> Inl TypeError
      | Some s \<Rightarrow>
          (case subsections s of
             None \<Rightarrow> Inl TypeError
           | Some subs \<Rightarrow>
               if i < length subs then
                 (let sub = subs ! i;
                      ps = (case sub_points sub of None \<Rightarrow> [] | Some ps \<Rightarrow> ps);
                      sub' = sub\<lparr>sub_points := Some (ps @ [point])\<rparr>
                  in Inr (st\<lparr>currentSection :=
                             Some (s\<lparr>subsections := Some (subs[i := sub'])\<rparr>)\<rparr>))
               else Inl TypeError))"

definition processLine :: "parser_state \<Rightarrow> string \<Rightarrow> js_error + parser_state" where
  \<comment> \<open>the body of \<open>lines.forEach(line => ...)\<close>\<close>
  "processLine st raw =
     (let line = trim raw in
      if matchMarker ''#'' line then
        Inr (st\<lparr>sections := (case currentSection st of
                               None \<Rightarrow> sections st
                             | Some s \<Rightarrow> sections st @ [s]),
                 currentSection := Some \<lparr>title = replaceMarker ''#'' line, content = Some [],
                                         points = None, subsections = Some []\<rparr>,
                 currentSubsection := None,
                 inKeyPoints := False\<rparr>)
      else if matchMarker ''##'' line then
        (let t = replaceMarker ''##'' line;
             st1 = (if includes_str (toLowerCase t) ''key points''
                    then st\<lparr>inKeyPoints := True, keyPoints := []\<rparr>
                    else st\<lparr>inKeyPoints := False\<rparr>)
         in case currentSection st1 of
              None \<Rightarrow> Inr st1
            | Some s \<Rightarrow>
                (case subsections s of
                   None \<Rightarrow> Inl TypeError
                 | Some subs \<Rightarrow>
                     Inr (st1\<lparr>currentSubsection := Some (length subs),
                              currentSection :=
                                Some (s\<lparr>subsections :=
                                  Some (subs @ [\<lparr>sub_title = t, sub_points = Some []\<rparr>])\<rparr>)\<rparr>)))
      else if matchNumbered line \<and> inKeyPoints st then
        Inr (st\<lparr>keyPoints := keyPoints st @ [replaceNumbered line]\<rparr>)
      else if matchMarker ''-'' line then
        (let point = replaceMarker ''-'' line
         in case currentSubsection st of
              Some i \<Rightarrow> pushPoint st i point
            | None \<Rightarrow>
                (case currentSection st of
                   Some s \<Rightarrow> pushContent st point
                 | None \<Rightarrow> Inr st))
      else if length line > 0 \<and> \<not> startsWith line ''#'' \<and> \<not> startsWith line ''##'' then
        (if currentSection st \<noteq> None \<and> length line > 5 then pushContent st line
         else Inr st)
      else Inr st)"

fun processLines :: "parser_state \<Rightarrow> string list \<Rightarrow> js_error + parser_state" where
  \<comment> \<open>\<open>lines.forEach\<close>: an exception in the callback ends the loop\<close>
  "processLines st [] = Inr st"
| "processLines st (l # ls) =
     (case processLine st l of
        Inl e \<Rightarrow> Inl e
      | Inr st' \<Rightarrow> processLines st' ls)"

definition nonBlankLines :: "string \<Rightarrow> string list" where
  \<comment> \<open>\<open>notes.split('\n').filter(line => line.trim())\<close>\<close>
  "nonBlankLines notes = filter (\<lambda>l. trim l \<noteq> []) (split_lines notes)"

definition pushLast :: "parser_state \<Rightarrow> note_section list" where
  \<comment> \<open>\<open>if (currentSection) sections.push(currentSection)\<close> after the loop\<close>
  "pushLast st =
     (case currentSection st of
        None \<Rightarrow> sections st
      | Some s \<Rightarrow> sections st @ [s])"

fun findIndex :: "('a \<Rightarrow> bool) \<Rightarrow> 'a list \<Rightarrow> nat option" where
  \<comment> \<open>\<open>xs.findIndex(P)\<close>; \<open>None\<close> is the result -1\<close>
  "findIndex P [] = None"
| "findIndex P (x # xs) = (if P x then Some 0 else map_option Suc (findIndex P xs))"

fun splice_at :: "'a list \<Rightarrow> nat \<Rightarrow> 'a \<Rightarrow> 'a list" where
  \<comment> \<open>\<open>xs.splice(start, 0, x)\<close>: a start beyond the end is the end\<close>
  "splice_at xs 0 x = x # xs"
| "splice_at [] (Suc n) x = [x]"
| "splice_at (y # ys) (Suc n) x = y # splice_at ys n x"

definition keyPointsSection :: "string list \<Rightarrow> note_section" where
  "keyPointsSection kps =
     \<lparr>title = ''Key Points'', content = None, points = Some kps, subsections = Some []\<rparr>"

definition insertKeyPoints :: "note_section list \<Rightarrow> string list \<Rightarrow> note_section list" where
  \<comment> \<open>the post-pass: \<open>if (keyPoints.length > 0 && sections.length > 0) ...\<close>\<close>
  "insertKeyPoints secs kps =
     (if length kps > 0 \<and> length secs > 0 then
        (case findIndex (\<lambda>s. includes_str (toLowerCase (title s)) ''overview'') secs of
           Some overviewIndex \<Rightarrow> splice_at secs (overviewIndex + 1) (keyPointsSection kps)
         | None \<Rightarrow> splice_at secs 1 (keyPointsSection kps))
      else secs)"

definition createFallbackStructure :: "string \<Rightarrow> note_section list" where
  "createFallbackStructure notes =
     [\<lparr>title = ''Content Notes'', content = Some [notes], points = None,
       subsections = Some []\<rparr>]"

definition parseStructuredNotes :: "string \<Rightarrow> js_error + note_section list" where
  "parseStructuredNotes notes =
     (case processLines initial_state (nonBlankLines notes) of
        Inl e \<Rightarrow> Inl e
      | Inr st \<Rightarrow>
          (let secs = insertKeyPoints (pushLast st) (keyPoints st)
           in Inr (if length secs > 0 then secs else createFallbackStructure notes)))"

definition refs_ok :: "parser_state \<Rightarrow> bool" where
  \<comment> \<open>the open section carries its arrays, the reference to the open subsection points
      into them, and every closed section carries its \<open>subsections\<close>\<close>
  "refs_ok st \<longleftrightarrow>
     (case currentSection st of
        None \<Rightarrow> currentSubsection st = None
      | Some s \<Rightarrow>
          content s \<noteq> None \<and>
          (case subsections s of
             None \<Rightarrow> False
           | Some subs \<Rightarrow>
               (case currentSubsection st of None \<Rightarrow> True | Some i \<Rightarrow> i < length subs))) \<and>
     list_all (\<lambda>s. subsections s \<noteq> None) (sections st)"

definition isOverview :: "note_section \<Rightarrow> bool" where
  \<comment> \<open>the predicate given to \<open>findIndex\<close>\<close>
  "isOverview s = includes_str (toLowerCase (title s)) ''overview''"

definition isKeyPointsHeading :: "string \<Rightarrow> bool" where
  \<comment> \<open>a line that takes the second branch of the classifier and resets the accumulator\<close>
  "isKeyPointsHeading raw \<longleftrightarrow>
     matchMarker ''##'' (trim raw) \<and>
     includes_str (toLowerCase (replaceMarker ''##'' (trim raw))) ''key points''"

definition noHeadingMarkers :: "string \<Rightarrow> bool" where
  \<comment> \<open>no line of the input, trimmed, matches \<open>^#\s+.+\<close> or \<open>^##\s+.+\<close>\<close>
  "noHeadingMarkers notes =
     list_all (\<lambda>l. \<not> matchMarker ''#'' (trim l) \<and> \<not> matchMarker ''##'' (trim l))
       (split_lines notes)"

fun join_lines :: "string list \<Rightarrow> string" where
  \<comment> \<open>\<open>ls.join('\n')\<close>\<close>
  "join_lines [] = []"
| "join_lines [l] = l"
| "join_lines (l # ls) = l @ [CHR 0x0A] @ join_lines ls"

definition trimmedLineFiltered :: "string \<Rightarrow> string" where
  \<comment> \<open>the specification's "trimmed-line-filtered input": blank lines removed, every
      other line trimmed\<close>
  "trimmedLineFiltered notes = join_lines (map trim (nonBlankLines notes))"

section \<open>formatNotesForDownload\<close>

definition nl :: string where
  "nl = [CHR 0x0A]"

definition bullet :: string where
  \<comment> \<open>the glyph in front of a subsection's point, as the bytes of the literal in
      \<open>notes.js\<close>; a code unit of it lies beyond 255\<close>
  "bullet = [CHR 0xC3, CHR 0xA2, CHR 0xE2, CHR 0x82, CHR 0xAC, CHR 0xC2, CHR 0xA2]"

fun toString :: "nat \<Rightarrow> string" where
  \<comment> \<open>a number in a template literal: its decimal digits\<close>
  "toString n =
     (if n < 10 then [char_of (n + 48)]
      else toString (n div 10) @ [char_of (n mod 10 + 48)])"

declare toString.simps [simp del]

fun forEachParagraph :: "string \<Rightarrow> string list \<Rightarrow> string" where
  \<comment> \<open>\<open>section.content.forEach(paragraph => ...)\<close>, from the text so far\<close>
  "forEachParagraph acc [] = acc"
| "forEachParagraph acc (p # ps) = forEachParagraph (acc @ p @ nl @ nl) ps"

fun forEachPoint :: "string \<Rightarrow> nat \<Rightarrow> string list \<Rightarrow> string" where
  \<comment> \<open>\<open>section.points.forEach((point, pointIndex) => ...)\<close>\<close>
  "forEachPoint acc pointIndex [] = acc"
| "forEachPoint acc pointIndex (p # ps) =
     forEachPoint (acc @ ''  '' @ toString (pointIndex + 1) @ ''. '' @ p @ nl)
       (pointIndex + 1) ps"

fun forEachSubPoint :: "string \<Rightarrow> string list \<Rightarrow> string" where
  \<comment> \<open>\<open>subsection.points.forEach((point, pointIndex) => ...)\<close>\<close>
  "forEachSubPoint acc [] = acc"
| "forEachSubPoint acc (p # ps) =
     forEachSubPoint (acc @ ''      '' @ bullet @ '' '' @ p @ nl) ps"

fun forEachSubsection :: "string \<Rightarrow> nat \<Rightarrow> note_subsection list \<Rightarrow> string" where
  \<comment> \<open>\<open>section.subsections.forEach((subsection, subIndex) => ...)\<close>\<close>
  "forEachSubsection acc subIndex [] = acc"
| "forEachSubsection acc subIndex (sub # subs) =
     (let c1 = acc @ ''   '' @ toString (subIndex + 1) @ ''. '' @ sub_title sub @ nl;
          c2 = (case sub_points sub of
                  None \<Rightarrow> c1
                | Some ps \<Rightarrow> forEachSubPoint c1 ps)
      in forEachSubsection (c2 @ nl) (subIndex + 1) subs)"

fun forEachSection :: "string \<Rightarrow> nat \<Rightarrow> note_section list \<Rightarrow> js_error + string" where
  \<comment> \<open>\<open>sections.forEach((section, index) => ...)\<close>; \<open>forEach\<close> of a missing
      \<open>subsections\<close> throws\<close>
  "forEachSection acc index [] = Inr acc"
| "forEachSection acc index (s # ss) =
     (let c1 = acc @ toString (index + 1) @ ''. '' @ title s @ nl;
          c2 = c1 @ replicate (length (title s) + 4) (CHR ''='') @ nl @ nl;
          c3 = (case content s of
                  None \<Rightarrow> c2
                | Some ps \<Rightarrow> forEachParagraph c2 ps);
          c4 = (case points s of
                  None \<Rightarrow> c3
                | Some ps \<Rightarrow> forEachPoint (c3 @ ''Key Points:'' @ nl) 0 ps @ nl)
      in case subsections s of
           None \<Rightarrow> Inl TypeError
         | Some subs \<Rightarrow> forEachSection (forEachSubsection c4 0 subs @ nl) (index + 1) ss)"

definition formatNotesForDownload :: "note_section list \<Rightarrow> js_error + string" where
  "formatNotesForDownload secs = forEachSection (''VIDEO NOTES'' @ nl @ nl) 0 secs"

subsection \<open>The layout of the export, as the specification words it\<close>

fun enumerate_from :: "nat \<Rightarrow> 'a list \<Rightarrow> (nat \<times> 'a) list" where
  "enumerate_from n [] = []"
| "enumerate_from n (x # xs) = (n, x) # enumerate_from (Suc n) xs"

definition layout_line :: "string \<Rightarrow> string" where
  "layout_line text = text @ nl"

definition layout_blank :: string where
  "layout_blank = nl"

definition layout_paragraph :: "string \<Rightarrow> string" where
  \<comment> \<open>a content paragraph on its own line, followed by a blank line\<close>
  "layout_paragraph p = layout_line p @ layout_blank"

definition layout_key_points :: "string list \<Rightarrow> string" where
  \<comment> \<open>the "Key Points:" block: numbered lines from 1, closed by a blank line\<close>
  "layout_key_points ps =
     layout_line ''Key Points:'' @
     concat (map (\<lambda>(n, p). layout_line (''  '' @ toString n @ ''. '' @ p)) (enumerate_from 1 ps)) @
     layout_blank"

definition layout_subsection :: "nat \<Rightarrow> note_subsection \<Rightarrow> string" where
  \<comment> \<open>an indexed sub-heading line, one bulleted line per point, closed by a blank line\<close>
  "layout_subsection n sub =
     layout_line (''   '' @ toString n @ ''. '' @ sub_title sub) @
     (case sub_points sub of
        None \<Rightarrow> []
      | Some ps \<Rightarrow> concat (map (\<lambda>p. layout_line (''      '' @ bullet @ '' '' @ p)) ps)) @
     layout_blank"

definition layout_section :: "nat \<Rightarrow> note_section \<Rightarrow> string" where
  "layout_section n s =
     layout_line (toString n @ ''. '' @ title s) @
     layout_line (replicate (length (title s) + 4) (CHR ''='')) @
     layout_blank @
     (case content s of
        None \<Rightarrow> []
      | Some ps \<Rightarrow> concat (map layout_paragraph ps)) @
     (case points s of
        None \<Rightarrow> []
      | Some ps \<Rightarrow> layout_key_points ps) @
     (case subsections s of
        None \<Rightarrow> []
      | Some subs \<Rightarrow> concat (map (\<lambda>(k, sub). layout_subsection k sub) (enumerate_from 1 subs))) @
     layout_blank"

definition layout_notes :: "note_section list \<Rightarrow> string" where
  "layout_notes secs =
     layout_line ''VIDEO NOTES'' @ layout_blank @
     concat (map (\<lambda>(n, s). layout_section n s) (enumerate_from 1 secs))"

section \<open>handleGenerateNotes and its retry timer\<close>

text \<open>
  The JSON answer of \<open>POST /generate_notes\<close>; a field that is absent is the empty
  string, which is as falsy as \<open>undefined\<close>. The request itself may fail.
\<close>

record notes_data =
  data_status :: string
  data_notes :: string
  data_message :: string
  data_error :: string

datatype 'a fetched = Rejected | Resolved 'a

text \<open>
  The variables of the page that the handler reads and writes, the requests it has sent
  and the timer it has set: \<open>timer = Some d\<close> after \<open>setTimeout(handleGenerateNotes, d)\<close>.
\<close>

record notes_page =
  retryCount :: nat
  currentNotes :: string
  loadingShown :: bool
  resultShown :: bool
  errorShown :: bool
  errorMessage :: string
  requests :: nat
  timer :: "nat option"

definition MAX_RETRIES :: nat where
  "MAX_RETRIES = 10"

definition RETRY_DELAY :: nat where
  "RETRY_DELAY = 3000"

definition notes_page_initial :: notes_page where
  "notes_page_initial =
     \<lparr>retryCount = 0, currentNotes = [], loadingShown = False, resultShown = False,
      errorShown = False, errorMessage = [], requests = 0, timer = None\<rparr>"

definition showLoadingState :: "notes_page \<Rightarrow> notes_page" where
  "showLoadingState pg = pg\<lparr>loadingShown := True, resultShown := False, errorShown := False\<rparr>"

definition hideLoadingState :: "notes_page \<Rightarrow> notes_page" where
  "hideLoadingState pg = pg\<lparr>loadingShown := False, retryCount := 0\<rparr>"

definition showProcessingState :: "notes_page \<Rightarrow> notes_page" where
  "showProcessingState pg = pg\<lparr>loadingShown := True, resultShown := False, errorShown := False\<rparr>"

definition showError :: "notes_page \<Rightarrow> string \<Rightarrow> notes_page" where
  "showError pg msg =
     pg\<lparr>errorMessage := msg, errorShown := True, resultShown := False, loadingShown := False,
        retryCount := 0\<rparr>"

definition orElse :: "string \<Rightarrow> string \<Rightarrow> string" where
  \<comment> \<open>\<open>a || b\<close> on strings\<close>
  "orElse a b = (if a \<noteq> [] then a else b)"

definition handleGenerateNotes :: "notes_page \<Rightarrow> notes_data fetched \<Rightarrow> notes_page" where
  \<comment> \<open>one call of the handler, given what its request is answered with; where the
      request itself fails, the text of its exception is left out of the message\<close>
  "handleGenerateNotes pg0 answer =
     (let pg1 = showLoadingState pg0;
          pg2 = pg1\<lparr>retryCount := 0\<rparr>;
          pg = pg2\<lparr>requests := requests pg2 + 1\<rparr>
      in case answer of
           Rejected \<Rightarrow> showError pg ''Failed to generate notes: ''
         | Resolved data \<Rightarrow>
             if data_status data = ''success'' \<and> data_notes data \<noteq> [] then
               hideLoadingState (pg\<lparr>currentNotes := data_notes data, resultShown := True\<rparr>)
             else if data_status data = ''processing'' then
               (let pg3 = showProcessingState pg;
                    pg4 = pg3\<lparr>retryCount := retryCount pg3 + 1\<rparr>
                in if retryCount pg4 < MAX_RETRIES
                   then pg4\<lparr>timer := Some RETRY_DELAY\<rparr>
                   else showError pg4
                          ''Video processing is taking too long. Please try again later.'')
             else
               showError pg
                 (''Failed to generate notes: '' @
                  orElse (data_message data) (orElse (data_error data) ''Notes generation failed'')))"

fun generation :: "notes_page \<Rightarrow> notes_data fetched list \<Rightarrow> notes_page" where
  \<comment> \<open>a click on the button and the calls its timer makes: each call takes the next
      answer of the backend, and the chain goes on while a call has set the timer\<close>
  "generation pg [] = pg"
| "generation pg (answer # answers) =
     (let pg' = handleGenerateNotes (pg\<lparr>timer := None\<rparr>) answer
      in if timer pg' = None then pg' else generation pg' answers)"

definition processing :: "notes_data fetched" where
  "processing = Resolved \<lparr>data_status = ''processing'', data_notes = [], data_message = [], data_error = []\<rparr>"

section \<open>The question and answer widget\<close>

text \<open>
  A message of the transcript, without its time stamp; \<open>text_content\<close> is the text of
  the message without the markup that \<open>showError\<close> puts in front of it.
\<close>

record qna_message =
  sender :: string
  text_content :: string
  msg_type :: string

record ask_data =
  ask_status :: string
  answer :: string

text \<open>
  The fields of \<open>RoyalQnA\<close> and the state of its two controls. \<open>pending\<close> holds the
  questions whose \<open>/ask_question\<close> request has been sent and not yet answered.
\<close>

record qna_state =
  inputValue :: string
  inputDisabled :: bool
  sendDisabled :: bool
  typingShown :: bool
  messages :: "qna_message list"
  questionCount :: nat
  pending :: "string list"

definition qna_initial :: qna_state where
  "qna_initial =
     \<lparr>inputValue = [], inputDisabled = False, sendDisabled = False, typingShown = False,
      messages = [], questionCount = 0, pending = []\<rparr>"

definition addMessage :: "qna_state \<Rightarrow> qna_message \<Rightarrow> qna_state" where
  "addMessage q m = q\<lparr>messages := messages q @ [m]\<rparr>"

definition qna_showError :: "qna_state \<Rightarrow> string \<Rightarrow> qna_state" where
  "qna_showError q msg =
     addMessage q \<lparr>sender = ''System'', text_content = msg, msg_type = ''ai''\<rparr>"

definition disableInput :: "qna_state \<Rightarrow> qna_state" where
  "disableInput q = q\<lparr>inputDisabled := True, sendDisabled := True\<rparr>"

definition enableInput :: "qna_state \<Rightarrow> qna_state" where
  "enableInput q = q\<lparr>inputDisabled := False, sendDisabled := False\<rparr>"

definition addAIReply :: "qna_state \<Rightarrow> ask_data \<Rightarrow> qna_state" where
  "addAIReply q response =
     (if ask_status response = ''success'' then
        addMessage (q\<lparr>questionCount := questionCount q + 1\<rparr>)
          \<lparr>sender = ''AI Assistant'', text_content = answer response, msg_type = ''ai''\<rparr>
      else qna_showError q (orElse (answer response) ''Sorry, I encountered an error.''))"

definition sendMessage_begin :: "qna_state \<Rightarrow> qna_state" where
  \<comment> \<open>\<open>sendMessage\<close> up to its \<open>await\<close>: the request leaves last\<close>
  "sendMessage_begin q =
     (let question = trim (inputValue q) in
      if question = [] then q
      else
        (let q1 = addMessage q \<lparr>sender = ''You'', text_content = question, msg_type = ''user''\<rparr>;
             q2 = q1\<lparr>inputValue := []\<rparr>;
             q3 = q2\<lparr>typingShown := True\<rparr>;
             q4 = disableInput q3
         in q4\<lparr>pending := pending q4 @ [question]\<rparr>))"

definition sendMessage_resume :: "qna_state \<Rightarrow> ask_data fetched \<Rightarrow> qna_state" where
  \<comment> \<open>\<open>sendMessage\<close> from its \<open>await\<close> on: the \<open>try\<close>, the \<open>catch\<close>, then \<open>enableInput\<close>\<close>
  "sendMessage_resume q result =
     enableInput
       (case result of
          Resolved response \<Rightarrow> addAIReply (q\<lparr>typingShown := False\<rparr>) response
        | Rejected \<Rightarrow>
            qna_showError (q\<lparr>typingShown := False\<rparr>) ''Failed to get response. Please try again.'')"

text \<open>
  What can happen to the widget. The browser gives a disabled control no click and no
  key, and a reply comes only for a request that is out.
\<close>

datatype qna_event =
    TypeText string
  | ClickSend
  | PressEnter
  | ReplyArrives "ask_data fetched"

fun qna_step :: "qna_state \<Rightarrow> qna_event \<Rightarrow> qna_state" where
  "qna_step q (TypeText s) = (if inputDisabled q then q else q\<lparr>inputValue := s\<rparr>)"
| "qna_step q ClickSend = (if sendDisabled q then q else sendMessage_begin q)"
| "qna_step q PressEnter = (if inputDisabled q then q else sendMessage_begin q)"
| "qna_step q (ReplyArrives result) =
     (case pending q of
        [] \<Rightarrow> q
      | question # others \<Rightarrow> sendMessage_resume (q\<lparr>pending := others\<rparr>) result)"

definition qna_run :: "qna_event list \<Rightarrow> qna_state" where
  "qna_run events = foldl qna_step qna_initial events"

definition qna_inv :: "qna_state \<Rightarrow> bool" where
  \<comment> \<open>the controls are disabled exactly while a request is out, and only one is\<close>
  "qna_inv q \<longleftrightarrow>
     (pending q = [] \<longleftrightarrow> \<not> inputDisabled q) \<and> (inputDisabled q \<longleftrightarrow> sendDisabled q) \<and>
     length (pending q) \<le> 1"

section \<open>Properties of the parser\<close>

subsection \<open>The parser never throws\<close>

lemma refs_ok_initial: "refs_ok initial_state"
  by (simp add: refs_ok_def initial_state_def)

lemma processLine_refs_ok:
  assumes "refs_ok st"
  shows "\<exists>st'. processLine st raw = Inr st' \<and> refs_ok st'"
  using assms
  by (auto simp: processLine_def refs_ok_def pushContent_def pushPoint_def Let_def
           split: option.splits)

lemma processLines_refs_ok:
  "refs_ok st \<Longrightarrow> \<exists>st'. processLines st ls = Inr st' \<and> refs_ok st'"
proof (induction ls arbitrary: st)
  case Nil
  then show ?case by simp
next
  case (Cons l ls)
  from processLine_refs_ok [OF Cons.prems, of l]
  obtain st1 where "processLine st l = Inr st1" "refs_ok st1" by blast
  with Cons.IH [of st1] show ?case by simp
qed

lemma reachable_refs_ok:
  assumes "processLines initial_state ls = Inr st"
  shows "refs_ok st"
  using processLines_refs_ok [OF refs_ok_initial, of ls] assms by auto

lemma splice_at_take_drop: "splice_at xs n x = take n xs @ [x] @ drop n xs"
  by (induction xs n x rule: splice_at.induct) simp_all

lemma set_splice_at: "set (splice_at xs n x) = insert x (set xs)"
proof -
  have "set (take n xs) \<union> set (drop n xs) = set xs"
    by (metis append_take_drop_id set_append)
  then show ?thesis by (auto simp: splice_at_take_drop)
qed

lemma insertKeyPoints_subsections:
  "list_all (\<lambda>s. subsections s \<noteq> None) secs \<Longrightarrow>
   list_all (\<lambda>s. subsections s \<noteq> None) (insertKeyPoints secs kps)"
  by (auto simp: insertKeyPoints_def list_all_iff set_splice_at keyPointsSection_def
           split: option.splits)

lemma pushLast_subsections:
  "refs_ok st \<Longrightarrow> list_all (\<lambda>s. subsections s \<noteq> None) (pushLast st)"
  by (auto simp: refs_ok_def pushLast_def split: option.splits)

lemma parse_result:
  "\<exists>st. processLines initial_state (nonBlankLines notes) = Inr st \<and> refs_ok st \<and>
     parseStructuredNotes notes =
       Inr (if insertKeyPoints (pushLast st) (keyPoints st) = []
            then createFallbackStructure notes
            else insertKeyPoints (pushLast st) (keyPoints st))"
proof -
  from processLines_refs_ok [OF refs_ok_initial, of "nonBlankLines notes"]
  obtain st where st: "processLines initial_state (nonBlankLines notes) = Inr st" "refs_ok st"
    by blast
  then show ?thesis by (auto simp: parseStructuredNotes_def Let_def)
qed

lemma parse_subsections:
  "\<exists>secs. parseStructuredNotes notes = Inr secs \<and> secs \<noteq> [] \<and>
     list_all (\<lambda>s. subsections s \<noteq> None) secs"
proof -
  from parse_result [of "notes"] obtain st where
    st: "refs_ok st" and
    p: "parseStructuredNotes notes =
          Inr (if insertKeyPoints (pushLast st) (keyPoints st) = []
               then createFallbackStructure notes
               else insertKeyPoints (pushLast st) (keyPoints st))"
    by blast
  have "list_all (\<lambda>s. subsections s \<noteq> None) (insertKeyPoints (pushLast st) (keyPoints st))"
    by (rule insertKeyPoints_subsections [OF pushLast_subsections [OF st]])
  moreover have "list_all (\<lambda>s. subsections s \<noteq> None) (createFallbackStructure notes)"
    and "createFallbackStructure notes \<noteq> []"
    by (simp_all add: createFallbackStructure_def)
  ultimately show ?thesis using p by auto
qed

subsection \<open>Input without a section heading\<close>

lemma processLine_no_section:
  assumes "currentSection st = None" "currentSubsection st = None"
    and "\<not> matchMarker ''#'' (trim raw)"
  shows "\<exists>st'. processLine st raw = Inr st' \<and> currentSection st' = None \<and>
           currentSubsection st' = None \<and> sections st' = sections st"
  using assms by (auto simp: processLine_def Let_def)

lemma processLines_no_section:
  assumes "currentSection st = None" "currentSubsection st = None"
    and "list_all (\<lambda>l. \<not> matchMarker ''#'' (trim l)) ls"
  shows "\<exists>st'. processLines st ls = Inr st' \<and> currentSection st' = None \<and>
           currentSubsection st' = None \<and> sections st' = sections st"
  using assms
proof (induction ls arbitrary: st)
  case Nil
  then show ?case by simp
next
  case (Cons l ls)
  from Cons.prems have l: "\<not> matchMarker ''#'' (trim l)"
    and ls: "list_all (\<lambda>l. \<not> matchMarker ''#'' (trim l)) ls"
    by simp_all
  from processLine_no_section [OF Cons.prems(1,2) l]
  obtain st1 where st1: "processLine st l = Inr st1" "currentSection st1 = None"
    "currentSubsection st1 = None" "sections st1 = sections st"
    by blast
  from Cons.IH [OF st1(2,3) ls] st1(1,4) show ?case by auto
qed

lemma insertKeyPoints_Nil: "insertKeyPoints [] kps = []"
  by (simp add: insertKeyPoints_def)

lemma parse_no_section:
  assumes "list_all (\<lambda>l. \<not> matchMarker ''#'' (trim l)) (nonBlankLines notes)"
  shows "parseStructuredNotes notes = Inr (createFallbackStructure notes)"
proof -
  have "currentSection initial_state = None" "currentSubsection initial_state = None"
    "sections initial_state = []"
    by (simp_all add: initial_state_def)
  with processLines_no_section [OF _ _ assms, of initial_state]
  obtain st where "processLines initial_state (nonBlankLines notes) = Inr st"
    "currentSection st = None" "sections st = []"
    by auto
  then show ?thesis
    by (simp add: parseStructuredNotes_def pushLast_def insertKeyPoints_Nil)
qed

text \<open>
  C2, as the code has it: for an input none of whose lines is a heading, the parser
  returns the single section "Content Notes", and its one paragraph is the input itself,
  unchanged (not the input with its blank lines removed and its lines trimmed).
\<close>

theorem C2_fallback_keeps_raw_input:
  assumes "noHeadingMarkers notes"
  shows "parseStructuredNotes notes =
           Inr [\<lparr>title = ''Content Notes'', content = Some [notes], points = None,
                  subsections = Some []\<rparr>]"
proof -
  from assms have "list_all (\<lambda>l. \<not> matchMarker ''#'' (trim l)) (nonBlankLines notes)"
    by (auto simp: noHeadingMarkers_def nonBlankLines_def list_all_iff)
  from parse_no_section [OF this] show ?thesis
    by (simp add: createFallbackStructure_def)
qed

theorem C2_fallback_keeps_raw_input_witness:
  "parseStructuredNotes '' plain text'' =
     Inr [\<lparr>title = ''Content Notes'', content = Some ['' plain text''], points = None,
            subsections = Some []\<rparr>]"
proof -
  have h: "noHeadingMarkers '' plain text''" by code_simp
  show ?thesis by (rule C2_fallback_keeps_raw_input [OF h])
qed

theorem C2_trimmed_paragraph_counterexample:
  "noHeadingMarkers '' a'' \<and>
   parseStructuredNotes '' a'' =
     Inr [\<lparr>title = ''Content Notes'', content = Some ['' a''], points = None,
            subsections = Some []\<rparr>] \<and>
   trimmedLineFiltered '' a'' = ''a''"
  by code_simp


subsection \<open>The worked example\<close>

text \<open>
  C3: the seven-line example of the specification gives three sections: "Overview" with
  the paragraph "Some intro" and the subsection "Key Points" without points, then the
  synthesized "Key Points" with the points "First" and "Second", then "Details" with
  the paragraph "a detail".
\<close>

theorem C3_worked_example:
  "parseStructuredNotes
     (''# Overview'' @ [CHR 0x0A] @ ''Some intro'' @ [CHR 0x0A] @ ''## Key Points'' @
      [CHR 0x0A] @ ''1. First'' @ [CHR 0x0A] @ ''2. Second'' @ [CHR 0x0A] @ ''# Details'' @
      [CHR 0x0A] @ ''- a detail'') =
   Inr [\<lparr>title = ''Overview'', content = Some [''Some intro''], points = None,
          subsections = Some [\<lparr>sub_title = ''Key Points'', sub_points = Some []\<rparr>]\<rparr>,
        \<lparr>title = ''Key Points'', content = None, points = Some [''First'', ''Second''],
          subsections = Some []\<rparr>,
        \<lparr>title = ''Details'', content = Some [''a detail''], points = None,
          subsections = Some []\<rparr>]"
  by code_simp

theorem C3_worked_example_witness:
  "map title (projr (parseStructuredNotes
     (''# Overview'' @ [CHR 0x0A] @ ''Some intro'' @ [CHR 0x0A] @ ''## Key Points'' @
      [CHR 0x0A] @ ''1. First'' @ [CHR 0x0A] @ ''2. Second'' @ [CHR 0x0A] @ ''# Details'' @
      [CHR 0x0A] @ ''- a detail''))) = [''Overview'', ''Key Points'', ''Details'']"
  by (simp only: C3_worked_example sum.sel list.map note_section.simps)

subsection \<open>Totality\<close>



section \<open>Properties of the export\<close>

lemma forEachParagraph_layout:
  "forEachParagraph acc ps = acc @ concat (map layout_paragraph ps)"
  by (induction ps arbitrary: acc) (simp_all add: layout_paragraph_def layout_line_def layout_blank_def)

lemma forEachPoint_layout:
  "forEachPoint acc i ps =
     acc @ concat (map (\<lambda>(n, p). layout_line (''  '' @ toString n @ ''. '' @ p))
                    (enumerate_from (Suc i) ps))"
  by (induction ps arbitrary: acc i) (simp_all add: layout_line_def)

lemma forEachSubPoint_layout:
  "forEachSubPoint acc ps =
     acc @ concat (map (\<lambda>p. layout_line (''      '' @ bullet @ '' '' @ p)) ps)"
  by (induction ps arbitrary: acc) (simp_all add: layout_line_def)

lemma forEachSubsection_layout:
  "forEachSubsection acc i subs =
     acc @ concat (map (\<lambda>(k, sub). layout_subsection k sub) (enumerate_from (Suc i) subs))"
proof (induction subs arbitrary: acc i)
  case Nil
  then show ?case by simp
next
  case (Cons sub subs)
  show ?case
    by (simp add: Cons.IH Let_def layout_subsection_def layout_line_def layout_blank_def
          forEachSubPoint_layout split: option.splits)
qed

lemma forEachSection_step:
  assumes "subsections s = Some subs"
  shows "forEachSection acc i (s # ss) = forEachSection (acc @ layout_section (Suc i) s) (Suc i) ss"
  using assms
  by (simp add: Let_def layout_section_def layout_line_def layout_blank_def
        layout_key_points_def forEachParagraph_layout forEachPoint_layout
        forEachSubsection_layout split: option.splits)

lemma forEachSection_missing:
  assumes "subsections s = None"
  shows "forEachSection acc i (s # ss) = Inl TypeError"
  using assms by (simp add: Let_def)

lemma forEachSection_layout:
  "forEachSection acc i secs =
     (if list_all (\<lambda>s. subsections s \<noteq> None) secs
      then Inr (acc @ concat (map (\<lambda>(n, s). layout_section n s) (enumerate_from (Suc i) secs)))
      else Inl TypeError)"
proof (induction secs arbitrary: acc i)
  case Nil
  then show ?case by simp
next
  case (Cons s ss)
  show ?case
  proof (cases "subsections s")
    case None
    then show ?thesis by (simp add: forEachSection_missing del: forEachSection.simps)
  next
    case (Some subs)
    then show ?thesis
      by (simp add: forEachSection_step Cons.IH del: forEachSection.simps)
  qed
qed

text \<open>
  C6: for a list of sections that carry their \<open>subsections\<close>, the export is the text
  that the specification lays out: the header line and a blank line; per section the
  index line, the underline of \<open>length title + 4\<close> signs (and a blank line), the
  paragraphs each followed by a blank line, the "Key Points:" block numbered from 1
  where the section has points, per subsection the indexed sub-heading and one bulleted
  line per point, and a blank line. A section without \<open>subsections\<close> makes the export
  throw.
\<close>

theorem C6_format_layout:
  "formatNotesForDownload secs =
     (if \<forall>s \<in> set secs. subsections s \<noteq> None then Inr (layout_notes secs)
      else Inl TypeError)"
  by (simp add: formatNotesForDownload_def forEachSection_layout layout_notes_def
        layout_line_def layout_blank_def list_all_iff)

theorem C6_format_layout_witness:
  "formatNotesForDownload
     [\<lparr>title = ''Ab'', content = Some [''x''], points = Some [''p''],
       subsections = Some [\<lparr>sub_title = ''S'', sub_points = Some [''q'']\<rparr>]\<rparr>] =
   Inr (''VIDEO NOTES'' @ nl @ nl @
        ''1. Ab'' @ nl @ ''======'' @ nl @ nl @
        ''x'' @ nl @ nl @
        ''Key Points:'' @ nl @ ''  1. p'' @ nl @ nl @
        ''   1. S'' @ nl @ ''      '' @ bullet @ '' q'' @ nl @ nl @
        nl)"
proof -
  have "layout_notes
     [\<lparr>title = ''Ab'', content = Some [''x''], points = Some [''p''],
       subsections = Some [\<lparr>sub_title = ''S'', sub_points = Some [''q'']\<rparr>]\<rparr>] =
     ''VIDEO NOTES'' @ nl @ nl @
        ''1. Ab'' @ nl @ ''======'' @ nl @ nl @
        ''x'' @ nl @ nl @
        ''Key Points:'' @ nl @ ''  1. p'' @ nl @ nl @
        ''   1. S'' @ nl @ ''      '' @ bullet @ '' q'' @ nl @ nl @
        nl"
    by code_simp
  then show ?thesis
    using C6_format_layout [of "[\<lparr>title = ''Ab'', content = Some [''x''], points = Some [''p''],
       subsections = Some [\<lparr>sub_title = ''S'', sub_points = Some [''q'']\<rparr>]\<rparr>]"]
    by simp
qed

text \<open>
  C10: every section that the parser returns carries its \<open>subsections\<close>, so the export
  of a parsed text does not throw.
\<close>

theorem C10_parsed_sections_export:
  "\<exists>secs text. parseStructuredNotes notes = Inr secs \<and>
     (\<forall>s \<in> set secs. \<exists>subs. subsections s = Some subs) \<and>
     formatNotesForDownload secs = Inr text"
proof -
  from parse_subsections [of "notes"] obtain secs where
    p: "parseStructuredNotes notes = Inr secs" and
    all: "list_all (\<lambda>s. subsections s \<noteq> None) secs"
    by blast
  from all have "formatNotesForDownload secs = Inr (''VIDEO NOTES'' @ nl @ nl @
      concat (map (\<lambda>(n, s). layout_section n s) (enumerate_from (Suc 0) secs)))"
    by (simp add: formatNotesForDownload_def forEachSection_layout)
  with p all show ?thesis by (auto simp: list_all_iff)
qed

theorem C10_parsed_sections_export_witness:
  "\<exists>secs text. parseStructuredNotes ''# A'' = Inr secs \<and>
     map subsections secs = [Some []] \<and> formatNotesForDownload secs = Inr text"
proof -
  have p: "parseStructuredNotes ''# A'' =
      Inr [\<lparr>title = ''A'', content = Some [], points = None, subsections = Some []\<rparr>]"
    by code_simp
  from C10_parsed_sections_export [of "''# A''"] show ?thesis
    unfolding p by auto
qed

section \<open>The synthesized section\<close>

lemma findIndex_Some:
  "findIndex P xs = Some i \<Longrightarrow> i < length xs \<and> P (xs ! i) \<and> (\<forall>j<i. \<not> P (xs ! j))"
proof (induction xs arbitrary: i)
  case Nil
  then show ?case by simp
next
  case (Cons x xs)
  show ?case
  proof (cases "P x")
    case True
    with Cons.prems show ?thesis by simp
  next
    case False
    with Cons.prems obtain k where k: "findIndex P xs = Some k" "i = Suc k"
      by auto
    from Cons.IH [OF k(1)] have "k < length xs" "P (xs ! k)" "\<forall>j<k. \<not> P (xs ! j)"
      by simp_all
    with False k(2) show ?thesis
      by (auto simp: less_Suc_eq_0_disj)
  qed
qed

lemma findIndex_None: "findIndex P xs = None \<Longrightarrow> \<forall>x \<in> set xs. \<not> P x"
  by (induction xs) (auto split: if_splits)

lemma insertKeyPoints_position:
  assumes "kps \<noteq> []" "secs \<noteq> []"
  shows "\<exists>p. insertKeyPoints secs kps = take p secs @ [keyPointsSection kps] @ drop p secs \<and>
           0 < p \<and> p \<le> length secs \<and>
           (if \<exists>s \<in> set secs. isOverview s
            then isOverview (secs ! (p - 1)) \<and> (\<forall>j<p - 1. \<not> isOverview (secs ! j))
            else p = 1)"
proof (cases "findIndex isOverview secs")
  case None
  from findIndex_None [OF None] have no: "\<not> (\<exists>s \<in> set secs. isOverview s)" by blast
  from None assms have "insertKeyPoints secs kps = take 1 secs @ [keyPointsSection kps] @ drop 1 secs"
    by (simp add: insertKeyPoints_def isOverview_def [abs_def] splice_at_take_drop)
  moreover from assms(2) have "1 \<le> length secs" by (cases secs) simp_all
  ultimately show ?thesis using no by (intro exI [of _ 1]) simp
next
  case (Some i)
  from findIndex_Some [OF Some] have i: "i < length secs" "isOverview (secs ! i)"
    "\<forall>j<i. \<not> isOverview (secs ! j)"
    by simp_all
  from i(1,2) have ex: "\<exists>s \<in> set secs. isOverview s" by (meson nth_mem)
  from Some assms have "insertKeyPoints secs kps =
      take (Suc i) secs @ [keyPointsSection kps] @ drop (Suc i) secs"
    by (simp add: insertKeyPoints_def isOverview_def [abs_def] splice_at_take_drop)
  with i ex show ?thesis by (intro exI [of _ "Suc i"]) simp
qed

text \<open>
  C4: when the line pass ends with a non-empty accumulator and a non-empty section list,
  the parser returns that list with one more section, titled "Key Points" and carrying
  the accumulated points, right after the first section whose title contains "overview"
  in any case, or at index 1 where no title does; when the section list is empty,
  nothing is inserted and the fallback is returned.
\<close>

theorem C4_key_points_inserted_once:
  assumes "processLines initial_state (nonBlankLines notes) = Inr st"
  shows "(keyPoints st \<noteq> [] \<and> pushLast st \<noteq> [] \<longrightarrow>
            (\<exists>p. parseStructuredNotes notes =
                    Inr (take p (pushLast st) @
                         [\<lparr>title = ''Key Points'', content = None,
                           points = Some (keyPoints st), subsections = Some []\<rparr>] @
                         drop p (pushLast st)) \<and>
                  0 < p \<and> p \<le> length (pushLast st) \<and>
                  (if \<exists>s \<in> set (pushLast st). includes_str (toLowerCase (title s)) ''overview''
                   then includes_str (toLowerCase (title (pushLast st ! (p - 1)))) ''overview'' \<and>
                        (\<forall>j<p - 1.
                           \<not> includes_str (toLowerCase (title (pushLast st ! j))) ''overview'')
                   else p = 1))) \<and>
         (pushLast st = [] \<longrightarrow>
            parseStructuredNotes notes = Inr (createFallbackStructure notes))"
proof (intro conjI impI)
  assume ne: "keyPoints st \<noteq> [] \<and> pushLast st \<noteq> []"
  from insertKeyPoints_position [of "keyPoints st" "pushLast st"] ne
  obtain p where p: "insertKeyPoints (pushLast st) (keyPoints st) =
      take p (pushLast st) @ [keyPointsSection (keyPoints st)] @ drop p (pushLast st)"
    "0 < p" "p \<le> length (pushLast st)"
    "if \<exists>s \<in> set (pushLast st). isOverview s
     then isOverview (pushLast st ! (p - 1)) \<and> (\<forall>j<p - 1. \<not> isOverview (pushLast st ! j))
     else p = 1"
    by blast
  from assms p(1) have "parseStructuredNotes notes =
      Inr (take p (pushLast st) @ [keyPointsSection (keyPoints st)] @ drop p (pushLast st))"
    by (simp add: parseStructuredNotes_def)
  with p(2,3,4) show "\<exists>p. parseStructuredNotes notes =
                    Inr (take p (pushLast st) @
                         [\<lparr>title = ''Key Points'', content = None,
                           points = Some (keyPoints st), subsections = Some []\<rparr>] @
                         drop p (pushLast st)) \<and>
                  0 < p \<and> p \<le> length (pushLast st) \<and>
                  (if \<exists>s \<in> set (pushLast st). includes_str (toLowerCase (title s)) ''overview''
                   then includes_str (toLowerCase (title (pushLast st ! (p - 1)))) ''overview'' \<and>
                        (\<forall>j<p - 1.
                           \<not> includes_str (toLowerCase (title (pushLast st ! j))) ''overview'')
                   else p = 1)"
    unfolding isOverview_def keyPointsSection_def by blast
next
  assume "pushLast st = []"
  with assms show "parseStructuredNotes notes = Inr (createFallbackStructure notes)"
    by (simp add: parseStructuredNotes_def insertKeyPoints_Nil)
qed

theorem C4_key_points_inserted_once_witness:
  "\<exists>p. parseStructuredNotes
          (''# Overview'' @ [CHR 0x0A] @ ''## Key Points'' @ [CHR 0x0A] @ ''1. First'' @
           [CHR 0x0A] @ ''# Details'') =
        Inr (take p
               [\<lparr>title = ''Overview'', content = Some [], points = None,
                  subsections = Some [\<lparr>sub_title = ''Key Points'', sub_points = Some []\<rparr>]\<rparr>,
                \<lparr>title = ''Details'', content = Some [], points = None,
                  subsections = Some []\<rparr>] @
             [\<lparr>title = ''Key Points'', content = None, points = Some [''First''],
                subsections = Some []\<rparr>] @
             drop p
               [\<lparr>title = ''Overview'', content = Some [], points = None,
                  subsections = Some [\<lparr>sub_title = ''Key Points'', sub_points = Some []\<rparr>]\<rparr>,
                \<lparr>title = ''Details'', content = Some [], points = None,
                  subsections = Some []\<rparr>]) \<and>
        0 < p \<and> p \<le> 2"
proof -
  define st0 where "st0 =
    \<lparr>sections = [\<lparr>title = ''Overview'', content = Some [], points = None,
                   subsections = Some [\<lparr>sub_title = ''Key Points'', sub_points = Some []\<rparr>]\<rparr>],
     currentSection = Some \<lparr>title = ''Details'', content = Some [], points = None,
                            subsections = Some []\<rparr>,
     currentSubsection = None, inKeyPoints = False, keyPoints = [''First'']\<rparr>"
  have run: "processLines initial_state
      (nonBlankLines (''# Overview'' @ [CHR 0x0A] @ ''## Key Points'' @ [CHR 0x0A] @
         ''1. First'' @ [CHR 0x0A] @ ''# Details'')) = Inr st0"
    unfolding st0_def by code_simp
  have pl: "pushLast st0 =
      [\<lparr>title = ''Overview'', content = Some [], points = None,
         subsections = Some [\<lparr>sub_title = ''Key Points'', sub_points = Some []\<rparr>]\<rparr>,
       \<lparr>title = ''Details'', content = Some [], points = None, subsections = Some []\<rparr>]"
    and kp: "keyPoints st0 = [''First'']"
    by (simp_all add: st0_def pushLast_def)
  from C4_key_points_inserted_once [OF run] show ?thesis
    unfolding pl kp by auto
qed

section \<open>Numbered lines outside the key-points mode\<close>

lemma matchNumbered_head:
  assumes "matchNumbered line"
  shows "\<exists>c cs. line = c # cs \<and> isDigit c"
  using assms by (cases line) (simp_all add: matchNumbered_def)

lemma matchNumbered_no_marker:
  assumes "matchNumbered line"
  shows "\<not> matchMarker ''#'' line" "\<not> matchMarker ''##'' line" "\<not> matchMarker ''-'' line"
    "\<not> startsWith line ''#''" "\<not> startsWith line ''##''" "0 < length line"
proof -
  from matchNumbered_head [OF assms] obtain c cs where l: "line = c # cs" "isDigit c"
    by blast
  from l(2) have c: "c \<noteq> CHR ''#''" "c \<noteq> CHR ''-''"
    by (auto simp: isDigit_def)
  from l(1) c show "\<not> matchMarker ''#'' line" "\<not> matchMarker ''##'' line"
    "\<not> matchMarker ''-'' line" "\<not> startsWith line ''#''" "\<not> startsWith line ''##''"
    "0 < length line"
    by (auto simp: matchMarker_def startsWith_def)
qed

lemma processLine_numbered_plain:
  assumes "matchNumbered (trim raw)" "\<not> inKeyPoints st"
  shows "processLine st raw =
           (if currentSection st \<noteq> None \<and> 5 < length (trim raw)
            then pushContent st (trim raw) else Inr st)"
  using assms matchNumbered_no_marker [OF assms(1)]
  by (simp add: processLine_def Let_def)

text \<open>
  C5: a line of the form \<open>^\d+\.\s+.+\<close> that the parser meets outside the key-points
  mode is no list item: with a section open and more than 5 characters in the trimmed
  line, the trimmed line as it is, number included, becomes the last paragraph of the
  open section; otherwise the line leaves the state as it was.
\<close>

theorem C5_numbered_line_is_plain_content:
  assumes "processLines initial_state ls = Inr st"
    and "\<not> inKeyPoints st"
    and "matchNumbered (trim raw)"
  shows "(\<forall>s. currentSection st = Some s \<and> 5 < length (trim raw) \<longrightarrow>
            (\<exists>c. content s = Some c \<and>
                 processLine st raw =
                   Inr (st\<lparr>currentSection := Some (s\<lparr>content := Some (c @ [trim raw])\<rparr>)\<rparr>))) \<and>
         (currentSection st = None \<or> length (trim raw) \<le> 5 \<longrightarrow> processLine st raw = Inr st)"
proof -
  from reachable_refs_ok [OF assms(1)] have ok: "refs_ok st" .
  note plain = processLine_numbered_plain [OF assms(3,2)]
  show ?thesis
  proof (intro conjI allI impI)
    fix s
    assume a: "currentSection st = Some s \<and> 5 < length (trim raw)"
    with ok obtain c where c: "content s = Some c"
      by (auto simp: refs_ok_def)
    with a plain show "\<exists>c. content s = Some c \<and>
        processLine st raw =
          Inr (st\<lparr>currentSection := Some (s\<lparr>content := Some (c @ [trim raw])\<rparr>)\<rparr>)"
      by (simp add: pushContent_def)
  next
    assume "currentSection st = None \<or> length (trim raw) \<le> 5"
    with plain show "processLine st raw = Inr st" by auto
  qed
qed

theorem C5_numbered_line_is_plain_content_witness:
  "processLine
     \<lparr>sections = [],
      currentSection = Some \<lparr>title = ''A'', content = Some [], points = None,
                             subsections = Some []\<rparr>,
      currentSubsection = None, inKeyPoints = False, keyPoints = []\<rparr>
     ''1. abcdef'' =
   Inr \<lparr>sections = [],
        currentSection = Some \<lparr>title = ''A'', content = Some [''1. abcdef''], points = None,
                               subsections = Some []\<rparr>,
        currentSubsection = None, inKeyPoints = False, keyPoints = []\<rparr> \<and>
   processLine
     \<lparr>sections = [],
      currentSection = Some \<lparr>title = ''A'', content = Some [], points = None,
                             subsections = Some []\<rparr>,
      currentSubsection = None, inKeyPoints = False, keyPoints = []\<rparr>
     ''1. ab'' =
   Inr \<lparr>sections = [],
        currentSection = Some \<lparr>title = ''A'', content = Some [], points = None,
                               subsections = Some []\<rparr>,
        currentSubsection = None, inKeyPoints = False, keyPoints = []\<rparr>"
proof -
  define st0 where "st0 =
    \<lparr>sections = [],
     currentSection = Some \<lparr>title = ''A'', content = Some [], points = None,
                            subsections = Some []\<rparr>,
     currentSubsection = None, inKeyPoints = False, keyPoints = []\<rparr>"
  have run: "processLines initial_state [''# A''] = Inr st0"
    unfolding st0_def by code_simp
  have mode: "\<not> inKeyPoints st0" by (simp add: st0_def)
  have long: "matchNumbered (trim ''1. abcdef'')" "trim ''1. abcdef'' = ''1. abcdef''"
    and short: "matchNumbered (trim ''1. ab'')" "trim ''1. ab'' = ''1. ab''"
    by code_simp+
  from C5_numbered_line_is_plain_content [OF run mode long(1)]
    C5_numbered_line_is_plain_content [OF run mode short(1)]
  show ?thesis
    unfolding long(2) short(2) by (auto simp: st0_def)
qed

section \<open>A key-points heading before the first section\<close>

lemma processLine_keyPoints_prefix:
  assumes "processLine st raw = Inr st'" "\<not> isKeyPointsHeading raw"
  shows "\<exists>extra. keyPoints st' = keyPoints st @ extra"
  using assms
  by (auto simp: processLine_def isKeyPointsHeading_def pushContent_def pushPoint_def Let_def
           split: if_splits option.splits)

lemma processLines_keyPoints_prefix:
  assumes "processLines st ls = Inr st'" "list_all (\<lambda>l. \<not> isKeyPointsHeading l) ls"
  shows "\<exists>extra. keyPoints st' = keyPoints st @ extra"
  using assms
proof (induction ls arbitrary: st)
  case Nil
  then show ?case by simp
next
  case (Cons l ls)
  from Cons.prems(1) obtain st1 where st1: "processLine st l = Inr st1"
    "processLines st1 ls = Inr st'"
    by (auto split: sum.splits)
  from Cons.prems(2) have l: "\<not> isKeyPointsHeading l"
    and ls: "list_all (\<lambda>l. \<not> isKeyPointsHeading l) ls"
    by simp_all
  from processLine_keyPoints_prefix [OF st1(1) l] obtain e1 where
    "keyPoints st1 = keyPoints st @ e1" by blast
  moreover from Cons.IH [OF st1(2) ls] obtain e2 where
    "keyPoints st' = keyPoints st1 @ e2" by blast
  ultimately show ?case by simp
qed

lemma processLines_append:
  "processLines st (xs @ ys) =
     (case processLines st xs of Inl e \<Rightarrow> Inl e | Inr st' \<Rightarrow> processLines st' ys)"
  by (induction xs arbitrary: st) (simp_all split: sum.splits)

lemma subsection_marker_not_section:
  assumes "matchMarker ''##'' line"
  shows "\<not> matchMarker ''#'' line"
proof -
  from assms have "take (length ''##'') line = ''##''"
    by (simp only: matchMarker_def startsWith_def)
  then obtain r where "line = CHR ''#'' # CHR ''#'' # r"
    by (metis append_take_drop_id append_Cons append_Nil)
  then show ?thesis
    by (simp add: matchMarker_def startsWith_def isWhiteSpace_def)
qed

lemma processLine_keyPoints_heading_lost:
  assumes "currentSection st = None" "isKeyPointsHeading raw"
  shows "processLine st raw = Inr (st\<lparr>inKeyPoints := True, keyPoints := []\<rparr>)"
proof -
  from assms(2) have m: "matchMarker ''##'' (trim raw)"
    and k: "includes_str (toLowerCase (replaceMarker ''##'' (trim raw))) ''key points''"
    by (simp_all add: isKeyPointsHeading_def)
  from subsection_marker_not_section [OF m] m k assms(1) show ?thesis
    by (simp add: processLine_def Let_def)
qed

lemma processLine_no_section_in_mode:
  assumes "currentSection st = None" "currentSubsection st = None" "inKeyPoints st"
    and "\<not> matchMarker ''#'' (trim raw)" "\<not> matchMarker ''##'' (trim raw)"
  shows "processLine st raw =
           Inr (if matchNumbered (trim raw)
                then st\<lparr>keyPoints := keyPoints st @ [replaceNumbered (trim raw)]\<rparr>
                else st)"
  using assms by (simp add: processLine_def Let_def)

lemma processLines_no_section_in_mode:
  assumes "currentSection st = None" "currentSubsection st = None" "inKeyPoints st"
    and "list_all (\<lambda>l. \<not> matchMarker ''#'' (trim l) \<and> \<not> matchMarker ''##'' (trim l)) block"
  shows "processLines st block =
           Inr (st\<lparr>keyPoints :=
                  keyPoints st @
                  map (\<lambda>l. replaceNumbered (trim l)) (filter (\<lambda>l. matchNumbered (trim l)) block)\<rparr>)"
  using assms
proof (induction block arbitrary: st)
  case Nil
  then show ?case by simp
next
  case (Cons l ls)
  from Cons.prems(4) have l: "\<not> matchMarker ''#'' (trim l)" "\<not> matchMarker ''##'' (trim l)"
    and ls: "list_all (\<lambda>l. \<not> matchMarker ''#'' (trim l) \<and> \<not> matchMarker ''##'' (trim l)) ls"
    by simp_all
  note step = processLine_no_section_in_mode [OF Cons.prems(1,2,3) l]
  show ?case
  proof (cases "matchNumbered (trim l)")
    case True
    define st' where "st' = st\<lparr>keyPoints := keyPoints st @ [replaceNumbered (trim l)]\<rparr>"
    from Cons.prems(1,2,3) have "currentSection st' = None" "currentSubsection st' = None"
      "inKeyPoints st'"
      by (simp_all add: st'_def)
    from Cons.IH [OF this ls] step True show ?thesis
      by (simp add: st'_def)
  next
    case False
    from Cons.IH [OF Cons.prems(1,2,3) ls] step False show ?thesis
      by simp
  qed
qed

text \<open>
  C9, as the code has it: a subsection heading with "key points" in its title that comes
  before any section heading creates no subsection (no section is open, before or after
  it), yet it starts the key-points mode with an empty accumulator, and of the lines that
  follow it up to the next heading every numbered one is accumulated, number stripped.
  Provided that no later line is again such a heading (which would empty the
  accumulator), these points are the first points of the synthesized "Key Points"
  section whenever the input has a section.
\<close>

theorem C9_lost_heading_keeps_points:
  assumes lines: "nonBlankLines notes = pre @ [h] @ block @ rest"
    and pre: "list_all (\<lambda>l. \<not> matchMarker ''#'' (trim l)) pre"
    and h: "isKeyPointsHeading h"
    and block: "list_all (\<lambda>l. \<not> matchMarker ''#'' (trim l) \<and> \<not> matchMarker ''##'' (trim l)) block"
    and rest: "list_all (\<lambda>l. \<not> isKeyPointsHeading l) rest"
    and items: "items = map (\<lambda>l. replaceNumbered (trim l)) (filter (\<lambda>l. matchNumbered (trim l)) block)"
  shows "\<exists>st1 st2 extra.
           processLines initial_state (pre @ [h] @ block) = Inr st1 \<and>
           sections st1 = [] \<and> currentSection st1 = None \<and> currentSubsection st1 = None \<and>
           inKeyPoints st1 \<and>
           keyPoints st1 = items \<and>
           processLines st1 rest = Inr st2 \<and>
           keyPoints st2 = items @ extra \<and>
           (items \<noteq> [] \<and> pushLast st2 \<noteq> [] \<longrightarrow>
              (\<exists>p. parseStructuredNotes notes =
                      Inr (take p (pushLast st2) @
                           [\<lparr>title = ''Key Points'', content = None,
                             points = Some (items @ extra), subsections = Some []\<rparr>] @
                           drop p (pushLast st2))))"
proof -
  have init: "currentSection initial_state = None" "currentSubsection initial_state = None"
    "sections initial_state = []"
    by (simp_all add: initial_state_def)
  from processLines_no_section [OF init(1,2) pre] init(3)
  obtain s0 where s0: "processLines initial_state pre = Inr s0" "currentSection s0 = None"
    "currentSubsection s0 = None" "sections s0 = []"
    by auto
  define s1 where "s1 = s0\<lparr>inKeyPoints := True, keyPoints := []\<rparr>"
  define st1 where "st1 = s1\<lparr>keyPoints := keyPoints s1 @ items\<rparr>"
  have step: "processLine s0 h = Inr s1"
    unfolding s1_def by (rule processLine_keyPoints_heading_lost [OF s0(2) h])
  have s1: "currentSection s1 = None" "currentSubsection s1 = None" "inKeyPoints s1"
    using s0(2,3) by (simp_all add: s1_def)
  from processLines_no_section_in_mode [OF s1 block]
  have run_block: "processLines s1 block = Inr st1"
    by (simp add: st1_def items)
  from s0(1) step run_block
  have run1: "processLines initial_state (pre @ [h] @ block) = Inr st1"
    by (simp add: processLines_append)
  have st1: "sections st1 = []" "currentSection st1 = None" "currentSubsection st1 = None"
    "inKeyPoints st1" "keyPoints st1 = items"
    using s0(2,3,4) by (simp_all add: st1_def s1_def)
  from processLines_refs_ok [OF reachable_refs_ok [OF run1], of rest]
  obtain st2 where st2: "processLines st1 rest = Inr st2" by blast
  from processLines_keyPoints_prefix [OF st2 rest] st1(5)
  obtain extra where extra: "keyPoints st2 = items @ extra"
    by auto
  from run1 st2 lines have run: "processLines initial_state (nonBlankLines notes) = Inr st2"
    using processLines_append [of initial_state "pre @ [h] @ block" rest] by simp
  have "\<exists>p. parseStructuredNotes notes =
          Inr (take p (pushLast st2) @
               [\<lparr>title = ''Key Points'', content = None,
                 points = Some (items @ extra), subsections = Some []\<rparr>] @
               drop p (pushLast st2))"
    if ne: "items \<noteq> [] \<and> pushLast st2 \<noteq> []"
  proof -
    from ne extra have "keyPoints st2 \<noteq> []" by simp
    from insertKeyPoints_position [OF this] ne
    obtain p where "insertKeyPoints (pushLast st2) (keyPoints st2) =
        take p (pushLast st2) @ [keyPointsSection (keyPoints st2)] @ drop p (pushLast st2)"
      by blast
    with run extra show ?thesis
      by (auto simp: parseStructuredNotes_def keyPointsSection_def)
  qed
  with run1 st1 st2 extra show ?thesis by blast
qed

theorem C9_lost_heading_keeps_points_witness:
  "\<exists>p secs extra.
     parseStructuredNotes (''## Key Points'' @ [CHR 0x0A] @ ''plain text here'' @ [CHR 0x0A] @
                           ''1. First'' @ [CHR 0x0A] @ ''# A'') =
       Inr (take p secs @
            [\<lparr>title = ''Key Points'', content = None, points = Some ([''First''] @ extra),
              subsections = Some []\<rparr>] @
            drop p secs) \<and> secs \<noteq> []"
proof -
  have lines: "nonBlankLines (''## Key Points'' @ [CHR 0x0A] @ ''plain text here'' @ [CHR 0x0A] @
                              ''1. First'' @ [CHR 0x0A] @ ''# A'') =
      [] @ [''## Key Points''] @ [''plain text here'', ''1. First''] @ [''# A'']"
    by code_simp
  have pre: "list_all (\<lambda>l. \<not> matchMarker ''#'' (trim l)) []" by simp
  have h: "isKeyPointsHeading ''## Key Points''" by code_simp
  have block: "list_all (\<lambda>l. \<not> matchMarker ''#'' (trim l) \<and> \<not> matchMarker ''##'' (trim l))
      [''plain text here'', ''1. First'']"
    by code_simp
  have rest: "list_all (\<lambda>l. \<not> isKeyPointsHeading l) [''# A'']" by code_simp
  have items: "[''First''] = map (\<lambda>l. replaceNumbered (trim l))
      (filter (\<lambda>l. matchNumbered (trim l)) [''plain text here'', ''1. First''])"
    by code_simp
  have run1: "processLines initial_state
      ([] @ [''## Key Points''] @ [''plain text here'', ''1. First'']) =
      Inr \<lparr>sections = [], currentSection = None, currentSubsection = None,
           inKeyPoints = True, keyPoints = [''First'']\<rparr>"
    by code_simp
  have run2: "processLines \<lparr>sections = [], currentSection = None, currentSubsection = None,
           inKeyPoints = True, keyPoints = [''First'']\<rparr> [''# A''] =
      Inr \<lparr>sections = [],
           currentSection = Some \<lparr>title = ''A'', content = Some [], points = None,
                                  subsections = Some []\<rparr>,
           currentSubsection = None, inKeyPoints = False, keyPoints = [''First'']\<rparr>"
    by code_simp
  from C9_lost_heading_keeps_points [OF lines pre h block rest items]
  obtain st1 st2 extra where
    r1: "processLines initial_state
           ([] @ [''## Key Points''] @ [''plain text here'', ''1. First'']) = Inr st1" and
    r2: "processLines st1 [''# A''] = Inr st2" and
    concl: "[''First''] \<noteq> [] \<and> pushLast st2 \<noteq> [] \<longrightarrow>
       (\<exists>p. parseStructuredNotes
               (''## Key Points'' @ [CHR 0x0A] @ ''plain text here'' @ [CHR 0x0A] @
                ''1. First'' @ [CHR 0x0A] @ ''# A'') =
             Inr (take p (pushLast st2) @
                  [\<lparr>title = ''Key Points'', content = None,
                    points = Some ([''First''] @ extra), subsections = Some []\<rparr>] @
                  drop p (pushLast st2)))"
    by blast
  from r1 run1 have "st1 = \<lparr>sections = [], currentSection = None, currentSubsection = None,
           inKeyPoints = True, keyPoints = [''First'']\<rparr>"
    by simp
  with r2 run2 have "st2 = \<lparr>sections = [],
           currentSection = Some \<lparr>title = ''A'', content = Some [], points = None,
                                  subsections = Some []\<rparr>,
           currentSubsection = None, inKeyPoints = False, keyPoints = [''First'']\<rparr>"
    by simp
  then have "pushLast st2 \<noteq> []" by (simp add: pushLast_def)
  with concl show ?thesis by auto
qed

theorem C9_second_heading_counterexample:
  "nonBlankLines (''## Key Points'' @ [CHR 0x0A] @ ''1. First'' @ [CHR 0x0A] @ ''# A'' @
                  [CHR 0x0A] @ ''## Key Points'') =
     [] @ [''## Key Points''] @ [''1. First''] @ [''# A'', ''## Key Points''] \<and>
   isKeyPointsHeading ''## Key Points'' \<and>
   matchNumbered (trim ''1. First'') \<and>
   parseStructuredNotes (''## Key Points'' @ [CHR 0x0A] @ ''1. First'' @ [CHR 0x0A] @ ''# A'' @
                         [CHR 0x0A] @ ''## Key Points'') =
     Inr [\<lparr>title = ''A'', content = Some [], points = None,
            subsections = Some [\<lparr>sub_title = ''Key Points'', sub_points = Some []\<rparr>]\<rparr>]"
  by code_simp

section \<open>The retry timer of handleGenerateNotes\<close>

lemma handleGenerateNotes_processing:
  "handleGenerateNotes pg processing =
     pg\<lparr>retryCount := 1, loadingShown := True, resultShown := False, errorShown := False,
        requests := requests pg + 1, timer := Some RETRY_DELAY\<rparr>"
  by (simp add: handleGenerateNotes_def processing_def showLoadingState_def
        showProcessingState_def MAX_RETRIES_def Let_def)

lemma generation_processing:
  "generation pg (replicate (Suc n) processing) =
     pg\<lparr>retryCount := 1, loadingShown := True, resultShown := False, errorShown := False,
        requests := requests pg + Suc n, timer := Some RETRY_DELAY\<rparr>"
proof (induction n arbitrary: pg)
  case 0
  show ?case by (simp add: handleGenerateNotes_processing Let_def)
next
  case (Suc n)
  have "generation pg (replicate (Suc (Suc n)) processing) =
      generation (handleGenerateNotes (pg\<lparr>timer := None\<rparr>) processing)
        (replicate (Suc n) processing)"
    by (simp add: handleGenerateNotes_processing Let_def)
  also have "\<dots> = pg\<lparr>retryCount := 1, loadingShown := True, resultShown := False,
      errorShown := False, requests := requests pg + Suc (Suc n), timer := Some RETRY_DELAY\<rparr>"
    unfolding Suc.IH by (simp add: handleGenerateNotes_processing)
  finally show ?case .
qed

text \<open>
  C1 on the code: every call of \<open>handleGenerateNotes\<close> sets \<open>retryCount\<close> to 0 before
  its request, the calls made by the timer included. So with a backend that answers
  "processing" each time, after any number \<open>n\<close> of answers \<open>n\<close> requests have been sent,
  the counter is 1, the timer is set again for 3000 ms and no error is shown.
\<close>

theorem C1_polling_never_stops:
  assumes "0 < n"
  shows "generation notes_page_initial (replicate n processing) =
           \<lparr>retryCount = 1, currentNotes = [], loadingShown = True, resultShown = False,
            errorShown = False, errorMessage = [], requests = n, timer = Some 3000\<rparr>"
proof -
  from assms obtain k where n: "n = Suc k" by (cases n) simp_all
  have "generation notes_page_initial (replicate (Suc k) processing) =
      notes_page_initial\<lparr>retryCount := 1, loadingShown := True, resultShown := False,
        errorShown := False, requests := requests notes_page_initial + Suc k,
        timer := Some RETRY_DELAY\<rparr>"
    by (rule generation_processing)
  then show ?thesis
    unfolding n by (simp add: notes_page_initial_def RETRY_DELAY_def)
qed

theorem C1_polling_never_stops_witness:
  "generation notes_page_initial (replicate 11 processing) =
     \<lparr>retryCount = 1, currentNotes = [], loadingShown = True, resultShown = False,
      errorShown = False, errorMessage = [], requests = 11, timer = Some 3000\<rparr>"
  using C1_polling_never_stops [of 11] by simp

section \<open>One question at a time\<close>

lemma qna_step_inv: "qna_inv q \<Longrightarrow> qna_inv (qna_step q ev)"
  by (cases ev)
     (auto simp: qna_inv_def sendMessage_begin_def sendMessage_resume_def disableInput_def
        enableInput_def addMessage_def addAIReply_def qna_showError_def Let_def
        split: list.splits fetched.splits)

lemma qna_run_inv: "qna_inv (qna_run events)"
proof (induction events rule: rev_induct)
  case Nil
  show ?case by (simp add: qna_run_def qna_inv_def qna_initial_def)
next
  case (snoc ev events)
  then show ?case by (simp add: qna_run_def qna_step_inv)
qed

lemma sendMessage_begin_disables:
  assumes "trim (inputValue q) \<noteq> []"
  shows "inputDisabled (sendMessage_begin q)" "sendDisabled (sendMessage_begin q)"
    "pending (sendMessage_begin q) = pending q @ [trim (inputValue q)]"
  using assms by (simp_all add: sendMessage_begin_def disableInput_def addMessage_def Let_def)

lemma sendMessage_resume_enables:
  "\<not> inputDisabled (sendMessage_resume q result)" "\<not> sendDisabled (sendMessage_resume q result)"
  "pending (sendMessage_resume q result) = pending q"
  by (simp_all add: sendMessage_resume_def enableInput_def addAIReply_def qna_showError_def
        addMessage_def split: fetched.splits)

text \<open>
  C8: in every state the widget can reach, the input and the send button are disabled
  exactly while a request is out, and at most one is out. Sending a non-empty question
  disables both before the request leaves; the reply, successful or failed, enables
  both again; and while both are disabled no click, key or typing changes anything.
\<close>

theorem C8_controls_disabled_while_pending:
  "(pending (qna_run events) \<noteq> [] \<longleftrightarrow> inputDisabled (qna_run events)) \<and>
   (inputDisabled (qna_run events) \<longleftrightarrow> sendDisabled (qna_run events)) \<and>
   length (pending (qna_run events)) \<le> 1 \<and>
   (trim (inputValue (qna_run events)) \<noteq> [] \<and> \<not> inputDisabled (qna_run events) \<longrightarrow>
      inputDisabled (sendMessage_begin (qna_run events)) \<and>
      sendDisabled (sendMessage_begin (qna_run events)) \<and>
      pending (sendMessage_begin (qna_run events)) = [trim (inputValue (qna_run events))]) \<and>
   (\<forall>result. inputDisabled (qna_run events) \<longrightarrow>
      \<not> inputDisabled (qna_step (qna_run events) (ReplyArrives result)) \<and>
      \<not> sendDisabled (qna_step (qna_run events) (ReplyArrives result)) \<and>
      pending (qna_step (qna_run events) (ReplyArrives result)) = []) \<and>
   (\<forall>s. inputDisabled (qna_run events) \<longrightarrow>
      qna_step (qna_run events) ClickSend = qna_run events \<and>
      qna_step (qna_run events) PressEnter = qna_run events \<and>
      qna_step (qna_run events) (TypeText s) = qna_run events)"
proof -
  define q where "q = qna_run events"
  have inv: "qna_inv q" unfolding q_def by (rule qna_run_inv)
  then have a: "pending q \<noteq> [] \<longleftrightarrow> inputDisabled q" "inputDisabled q \<longleftrightarrow> sendDisabled q"
    "length (pending q) \<le> 1"
    by (auto simp: qna_inv_def)
  have b: "inputDisabled (sendMessage_begin q) \<and> sendDisabled (sendMessage_begin q) \<and>
      pending (sendMessage_begin q) = [trim (inputValue q)]"
    if "trim (inputValue q) \<noteq> [] \<and> \<not> inputDisabled q"
  proof -
    from that a(1) have "pending q = []" by blast
    with sendMessage_begin_disables [of q] that show ?thesis by simp
  qed
  have c: "\<not> inputDisabled (qna_step q (ReplyArrives result)) \<and>
      \<not> sendDisabled (qna_step q (ReplyArrives result)) \<and>
      pending (qna_step q (ReplyArrives result)) = []"
    if "inputDisabled q" for result
  proof -
    from that a(1,3) obtain question where "pending q = [question]"
      by (cases "pending q") auto
    then show ?thesis by (simp add: sendMessage_resume_enables)
  qed
  have d: "qna_step q ClickSend = q \<and> qna_step q PressEnter = q \<and> qna_step q (TypeText s) = q"
    if "inputDisabled q" for s
    using that a(2) by simp
  from a b c d show ?thesis unfolding q_def by blast
qed

theorem C8_controls_disabled_while_pending_witness:
  "inputDisabled (sendMessage_begin (qna_run [TypeText ''hi''])) \<and>
   sendDisabled (sendMessage_begin (qna_run [TypeText ''hi''])) \<and>
   pending (sendMessage_begin (qna_run [TypeText ''hi''])) = [''hi''] \<and>
   \<not> inputDisabled (qna_step (qna_run [TypeText ''hi'', ClickSend]) (ReplyArrives Rejected)) \<and>
   qna_step (qna_run [TypeText ''hi'', ClickSend]) ClickSend = qna_run [TypeText ''hi'', ClickSend]"
proof -
  have typed: "trim (inputValue (qna_run [TypeText ''hi''])) = ''hi''"
    "\<not> inputDisabled (qna_run [TypeText ''hi''])"
    by code_simp+
  have sent: "inputDisabled (qna_run [TypeText ''hi'', ClickSend])"
    by code_simp
  from C8_controls_disabled_while_pending [of "[TypeText ''hi'']"] typed
  have "inputDisabled (sendMessage_begin (qna_run [TypeText ''hi''])) \<and>
     sendDisabled (sendMessage_begin (qna_run [TypeText ''hi''])) \<and>
     pending (sendMessage_begin (qna_run [TypeText ''hi''])) = [''hi'']"
    by simp
  moreover from C8_controls_disabled_while_pending [of "[TypeText ''hi'', ClickSend]"] sent
  have "\<not> inputDisabled (qna_step (qna_run [TypeText ''hi'', ClickSend]) (ReplyArrives Rejected)) \<and>
     qna_step (qna_run [TypeText ''hi'', ClickSend]) ClickSend = qna_run [TypeText ''hi'', ClickSend]"
    by blast
  ultimately show ?thesis by blast
qed

end
